theory Spec2Isabelle
  imports Complex_Main "HOL-Library.Multiset" "HOL-Library.Sublist"
begin

section \<open>Ranking: the top-K slice of a score table\<close>

text \<open>
  The notebook ranks a centrality dictionary three times with the same expression:
  \<^verbatim>\<open>
  top_deg_centrality= sorted(nx.in_degree_centrality(G).items(),
                             key=operator.itemgetter(1),reverse=True)[:10]
  top_eigen_centrality= sorted(nx.eigenvector_centrality_numpy(G).items(),
                               key=operator.itemgetter(1),reverse=True)[:10]
  top_pagerank= sorted(nx.pagerank(G).items(),
                       key=operator.itemgetter(1),reverse=True)[:20]
  \<close>
  A score table is the list of the dictionary's items, (node id, score) pairs in insertion
  order. The score type is any linear order: the floats a centrality function returns are
  compared, never computed with, and no NaN occurs among them.

  \<open>sorted(xs, key=f, reverse=True)\<close> is a stable sort that keeps the original order of
  items with equal keys: CPython reverses the list, sorts it stably in ascending order and
  reverses it again. \<open>sort_key\<close> is a stable ascending insertion sort.
\<close>

definition sorted_reverse :: "('a \<Rightarrow> 'k::linorder) \<Rightarrow> 'a list \<Rightarrow> 'a list" where
  "sorted_reverse key xs = rev (sort_key key (rev xs))"

text \<open>\<open>operator.itemgetter(1)\<close> on a pair is \<open>snd\<close>; \<open>[:k]\<close> with \<open>k \<ge> 0\<close> is \<open>take k\<close>.\<close>

definition top_k :: "('n \<times> 's::linorder) list \<Rightarrow> nat \<Rightarrow> ('n \<times> 's) list" where
  "top_k scores k = take k (sorted_reverse snd scores)"

definition top_deg_centrality :: "('n \<times> 's::linorder) list \<Rightarrow> ('n \<times> 's) list" where
  "top_deg_centrality in_degree_centrality = top_k in_degree_centrality 10"

definition top_eigen_centrality :: "('n \<times> 's::linorder) list \<Rightarrow> ('n \<times> 's) list" where
  "top_eigen_centrality eigenvector_centrality = top_k eigenvector_centrality 10"

definition top_pagerank :: "('n \<times> 's::linorder) list \<Rightarrow> ('n \<times> 's) list" where
  "top_pagerank pagerank = top_k pagerank 20"

section \<open>Python's \<open>int(str)\<close>\<close>

text \<open>
  \<open>lookup\<close> converts every id with \<open>int(id)\<close>. The ids are the graph's nodes, which
  \<open>read_adjlist\<close> leaves as strings. For a string, \<open>int\<close> (base 10) strips surrounding
  whitespace, accepts one optional sign, and then requires decimal digits, where single
  underscores may stand between digits; anything else raises \<open>ValueError\<close>
  (\<open>None\<close> here). A \<open>char\<close> is read as the code point of the same number, so the
  strings covered are those of code points below 256. There the decimal digits are
  \<open>0\<close> to \<open>9\<close>, and the whitespace that \<open>int\<close> strips is tab, line feed, vertical
  tab, form feed, carriage return and space, and the code points 133 and 160 (the
  separators 28 to 31, which \<open>str.isspace\<close> accepts, are not stripped). This is
  \<open>int\<close> as of Python 3.6, where underscores came in; the interpreter's configurable limit
  on the number of digits is not modelled.
\<close>

definition py_isspace :: "char \<Rightarrow> bool" where
  "py_isspace c =
     (let n = (of_char c :: nat)
      in (9 \<le> n \<and> n \<le> 13) \<or> n = 32 \<or> n = 133 \<or> n = 160)"

definition py_isdigit :: "char \<Rightarrow> bool" where
  "py_isdigit c = (let n = (of_char c :: nat) in 48 \<le> n \<and> n \<le> 57)"

definition digit_value :: "char \<Rightarrow> int" where
  "digit_value c = int (of_char c) - 48"

definition py_strip :: "string \<Rightarrow> string" where
  "py_strip s = rev (dropWhile py_isspace (rev (dropWhile py_isspace s)))"

text \<open>
  The digits after the first one, with the value read so far: a digit extends the value,
  an underscore is skipped when a digit follows it, and the end of the string is accepted
  only after a digit.
\<close>

fun py_digits :: "int \<Rightarrow> string \<Rightarrow> int option" where
  "py_digits acc [] = Some acc"
| "py_digits acc [c] = (if py_isdigit c then Some (acc * 10 + digit_value c) else None)"
| "py_digits acc (c # d # cs) =
     (if py_isdigit c then py_digits (acc * 10 + digit_value c) (d # cs)
      else if c = CHR ''_'' \<and> py_isdigit d then py_digits acc (d # cs)
      else None)"

definition py_unsigned :: "string \<Rightarrow> int option" where
  "py_unsigned s =
     (case s of [] \<Rightarrow> None
      | c # cs \<Rightarrow> if py_isdigit c then py_digits 0 (c # cs) else None)"

definition py_int :: "string \<Rightarrow> int option" where
  "py_int s =
     (case py_strip s of
        [] \<Rightarrow> None
      | c # cs \<Rightarrow>
          if c = CHR ''-'' then map_option uminus (py_unsigned cs)
          else if c = CHR ''+'' then py_unsigned cs
          else py_unsigned (c # cs))"

text \<open>
  The characters that can occur in a string \<open>int\<close> accepts: digits, the underscore,
  the two signs and whitespace.
\<close>

definition int_char :: "char \<Rightarrow> bool" where
  "int_char c = (py_isdigit c \<or> c = CHR ''_'' \<or> c = CHR ''+'' \<or> c = CHR ''-'' \<or> py_isspace c)"

section \<open>The attribute table and \<open>lookup\<close>\<close>

text \<open>
  \<^verbatim>\<open>
  pat_data=pd.read_csv("apat63_99.txt")
  pat_names=pd.read_csv("aconame.txt")
  pat_data=pd.merge(pat_data,pat_names,how='left',left_on="ASSIGNEE",right_on="ASSIGNEE")

  cols=["PATENT","GYEAR","COMPNAME"]
  def lookup(patent_ids):
      df=pat_data[pat_data["PATENT"].isin([int(id) for id in patent_ids])]
      return df[cols].copy()
  \<close>
  A data frame is its rows in row order. A row carries its index label, the three columns
  that \<open>cols\<close> names, typed as the files have them (\<open>PATENT\<close> and \<open>GYEAR\<close> are
  \<open>int64\<close> columns, \<open>COMPNAME\<close> is a string or NaN, which is \<open>None\<close>), and the frame's remaining
  columns as pairs of column name and value. The row type gives every frame the columns of
  \<open>cols\<close>, so the \<open>KeyError\<close> of a missing column has no branch.
\<close>

record row =
  label :: nat
  PATENT :: int
  GYEAR :: int
  COMPNAME :: "string option"
  others :: "(string \<times> string) list"

type_synonym frame = "row list"

text \<open>
  Frames are objects: the heap lists them, an object's address is its position, and a new
  object goes to the end. The global name \<open>pat_data\<close> holds an address; it is bound when
  that address is on the heap, and reading the name raises \<open>NameError\<close> otherwise (the
  cell that loads the table has not run).
\<close>

record world =
  heap :: "frame list"
  pat_data :: nat

datatype error = NameError | ValueError

definition alloc :: "frame \<Rightarrow> world \<Rightarrow> nat \<times> world" where
  "alloc f w = (length (heap w), w\<lparr>heap := heap w @ [f]\<rparr>)"

text \<open>
  \<open>[int(id) for id in patent_ids]\<close>: the conversions run in order and the first id that
  does not parse raises.
\<close>

fun int_all :: "string list \<Rightarrow> error + int list" where
  "int_all [] = Inr []"
| "int_all (s # ss) =
     (case py_int s of
        None \<Rightarrow> Inl ValueError
      | Some n \<Rightarrow> (case int_all ss of Inl e \<Rightarrow> Inl e | Inr ns \<Rightarrow> Inr (n # ns)))"

text \<open>
  \<open>column.isin(values)\<close>, for the \<open>int64\<close> column \<open>PATENT\<close> and a list of Python
  integers, as pandas 2.2 does it. The list becomes an array, and its dtype is the one
  numpy finds for the values: \<open>int64\<close> when all fit, \<open>uint64\<close> when none is negative and
  all are below \<open>2^64\<close>, \<open>float64\<close> for a mix of negative values and values from \<open>2^63\<close>
  on (and for the empty list), and \<open>object\<close> once a value is outside both ranges.
\<close>

datatype dtype = Int64 | UInt64 | Float64 | Object

definition int64 :: "int \<Rightarrow> bool" where
  "int64 n = (- (2 ^ 63) \<le> n \<and> n < 2 ^ 63)"

definition asarray_dtype :: "int list \<Rightarrow> dtype" where
  "asarray_dtype vals =
     (if vals = [] then Float64
      else if \<forall>v \<in> set vals. int64 v then Int64
      else if \<exists>v \<in> set vals. v < - (2 ^ 63) \<or> 2 ^ 64 \<le> v then Object
      else if \<forall>v \<in> set vals. 0 \<le> v then UInt64
      else Float64)"

text \<open>
  Column and values are then cast to their common dtype: \<open>int64\<close> and \<open>uint64\<close> have
  none but \<open>float64\<close>.
\<close>

fun find_common_type :: "dtype \<Rightarrow> dtype \<Rightarrow> dtype" where
  "find_common_type Object _ = Object"
| "find_common_type _ Object = Object"
| "find_common_type Float64 _ = Float64"
| "find_common_type _ Float64 = Float64"
| "find_common_type Int64 Int64 = Int64"
| "find_common_type UInt64 UInt64 = UInt64"
| "find_common_type _ _ = Float64"

text \<open>
  The cast of an integer to \<open>float64\<close>, as the integer the float stands for: integers of
  up to 53 binary digits are kept, longer ones are rounded to 53 significant digits, to
  the nearest, and to the even one of two that are equally near.
\<close>

function bit_length :: "int \<Rightarrow> nat" where
  "bit_length a = (if a \<le> 0 then 0 else Suc (bit_length (a div 2)))"
  by pat_completeness auto
termination
  by (relation "measure nat") auto

declare bit_length.simps [simp del]

definition float64 :: "int \<Rightarrow> int" where
  "float64 n =
     (let a = \<bar>n\<bar>;
          e = bit_length a - 53;
          q = a div 2 ^ e;
          r = a mod 2 ^ e;
          up = (e \<noteq> 0 \<and> (2 ^ (e - 1) < r \<or> (r = 2 ^ (e - 1) \<and> odd q)))
      in sgn n * ((if up then q + 1 else q) * 2 ^ e))"

text \<open>
  The mask is the membership test in the common dtype: exact on \<open>int64\<close> and on
  \<open>object\<close>, where the entries are compared as Python integers, and after the cast on
  \<open>float64\<close>, where an entry matches a value that is cast to the same float. (For a
  column of more than a million entries and at most 26 values pandas hands the test to
  \<open>numpy.isin\<close>, which on \<open>int64\<close> values is the same exact test.)
\<close>

definition isin :: "int list \<Rightarrow> int list \<Rightarrow> bool list" where
  "isin column vals =
     (case find_common_type (asarray_dtype vals) Int64 of
        Float64 \<Rightarrow> map (\<lambda>x. float64 x \<in> float64 ` set vals) column
      | _ \<Rightarrow> map (\<lambda>x. x \<in> set vals) column)"

text \<open>\<open>frame[mask]\<close>: a new frame of the rows whose mask entry is true, in row order.\<close>

definition getitem_mask :: "frame \<Rightarrow> bool list \<Rightarrow> frame" where
  "getitem_mask f msk = map fst (filter snd (zip f msk))"

text \<open>
  \<open>frame[cols]\<close> with \<open>cols=["PATENT","GYEAR","COMPNAME"]\<close>: a new frame of the same
  rows, with these three columns only. A row's \<open>others\<close> are the columns of other names,
  so the selection drops them all; it keeps the index labels.
\<close>

definition getitem_cols :: "frame \<Rightarrow> frame" where
  "getitem_cols f = map (\<lambda>r. r\<lparr>others := []\<rparr>) f"

text \<open>\<open>frame.copy()\<close>: the data of the new object, equal to the data of the old one.\<close>

definition copy :: "frame \<Rightarrow> frame" where
  "copy f = f"

text \<open>
  \<open>lookup\<close> returns the address of the frame it built, or the error raised, and the world
  after the call. The name \<open>pat_data\<close> is read before the ids are converted. The frames
  \<open>df\<close> and \<open>df[cols]\<close> and the copy are three new objects, each with data of its
  own: a selection by a boolean mask copies the rows it selects, and whatever
  \<open>df[cols]\<close> may share with \<open>df\<close>, both are local to the call.
\<close>

definition lookup :: "world \<Rightarrow> string list \<Rightarrow> (error + nat) \<times> world" where
  "lookup w patent_ids =
     (if length (heap w) \<le> pat_data w then (Inl NameError, w)
      else
        case int_all patent_ids of
          Inl e \<Rightarrow> (Inl e, w)
        | Inr ns \<Rightarrow>
            let table = heap w ! pat_data w;
                (df, w1) = alloc (getitem_mask table (isin (map PATENT table) ns)) w;
                (view, w2) = alloc (getitem_cols (heap w1 ! df)) w1;
                (res, w3) = alloc (copy (heap w2 ! view)) w2
            in (Inr res, w3))"

text \<open>The frame \<open>df\<close> of a call whose ids convert to \<open>ns\<close>.\<close>

abbreviation selected :: "frame \<Rightarrow> int list \<Rightarrow> frame" where
  "selected table ns \<equiv> getitem_mask table (isin (map PATENT table) ns)"

text \<open>What the caller holds after a call: the error, or the frame at the address returned.\<close>

definition returned :: "(error + nat) \<times> world \<Rightarrow> error + frame" where
  "returned r = (case fst r of Inl e \<Rightarrow> Inl e | Inr a \<Rightarrow> Inr (heap (snd r) ! a))"

text \<open>
  A small table for the concrete cases: two rows of the printed reports, with one of the
  other columns, loaded as the first object of the session.
\<close>

definition example_table :: frame where
  "example_table =
     [\<lparr>label = 879900, PATENT = 3953566, GYEAR = 1976,
        COMPNAME = Some ''W. L. GORE & ASSSOCIATES, INC.'',
        others = [(''ASSIGNEE'', ''225135'')]\<rparr>,
      \<lparr>label = 1293878, PATENT = 4367924, GYEAR = 1983,
        COMPNAME = None,
        others = [(''ASSIGNEE'', ''nan'')]\<rparr>]"

definition example_world :: world where
  "example_world = \<lparr>heap = [example_table], pat_data = 0\<rparr>"

text \<open>A table with the largest patent number an \<open>int64\<close> column can hold.\<close>

definition wide_table :: frame where
  "wide_table =
     [\<lparr>label = 0, PATENT = 9223372036854775807, GYEAR = 1999, COMPNAME = None, others = []\<rparr>,
      \<lparr>label = 1, PATENT = 4367924, GYEAR = 1983, COMPNAME = None, others = []\<rparr>]"

definition wide_world :: world where
  "wide_world = \<lparr>heap = [wide_table], pat_data = 0\<rparr>"

section \<open>Eigenvector centrality\<close>

text \<open>
  Modelled from the spec: the eigenvector centrality function. The notebook calls
  \<open>nx.eigenvector_centrality_numpy(G)\<close>; the function is library code and is not in
  the repository, so it is modelled from the words of the specification.

  A directed graph is a set of node identifiers with a set of directed edges, from the
  citing patent to the cited one.
\<close>

record 'n digraph =
  nodes :: "'n set"
  edges :: "('n \<times> 'n) set"

text \<open>
  Modelled from the spec: the adjacency relation is used in the cited-by direction: the score of a node depends
  on the scores of the nodes that cite it. \<open>in_sum G y v\<close> is the sum of \<open>y\<close> over
  the nodes with an edge to \<open>v\<close>, the component at \<open>v\<close> of the product of the
  transposed adjacency matrix with \<open>y\<close>.
\<close>

definition in_sum :: "'n digraph \<Rightarrow> ('n \<Rightarrow> real) \<Rightarrow> 'n \<Rightarrow> real" where
  "in_sum G y v = (\<Sum>u \<in> {u \<in> nodes G. (u, v) \<in> edges G}. y u)"

text \<open>
  Modelled from the spec: an eigenvector for the eigenvalue \<open>l\<close> is a vector that is not zero and that the
  product maps to \<open>l\<close> times itself. The dominant eigenvalue is an eigenvalue that no
  eigenvalue exceeds in absolute value.
\<close>

definition eigenvector :: "'n digraph \<Rightarrow> real \<Rightarrow> ('n \<Rightarrow> real) \<Rightarrow> bool" where
  "eigenvector G l y = ((\<exists>v \<in> nodes G. y v \<noteq> 0) \<and> (\<forall>v \<in> nodes G. in_sum G y v = l * y v))"

definition eigenvalue :: "'n digraph \<Rightarrow> real \<Rightarrow> bool" where
  "eigenvalue G l = (\<exists>y. eigenvector G l y)"

definition dominant_eigenvalue :: "'n digraph \<Rightarrow> real \<Rightarrow> bool" where
  "dominant_eigenvalue G l = (eigenvalue G l \<and> (\<forall>m. eigenvalue G m \<longrightarrow> \<bar>m\<bar> \<le> l))"

text \<open>
  Modelled from the spec: a score table is an eigenvector centrality of the graph when it is an eigenvector of
  the dominant eigenvalue with no negative entry and with Euclidean norm 1. The function
  returns such a table; where there are several, the specification does not say which.
\<close>

definition eigenvector_centrality :: "'n digraph \<Rightarrow> ('n \<Rightarrow> real) \<Rightarrow> bool" where
  "eigenvector_centrality G x =
     (\<exists>l. dominant_eigenvalue G l \<and> eigenvector G l x
          \<and> (\<forall>v \<in> nodes G. 0 \<le> x v) \<and> (\<Sum>v \<in> nodes G. (x v)\<^sup>2) = 1)"

text \<open>The subgraph on a set of nodes: these nodes and the edges between them.\<close>

definition induced :: "'n digraph \<Rightarrow> 'n set \<Rightarrow> 'n digraph" where
  "induced G U = \<lparr>nodes = nodes G \<inter> U, edges = {(u, v) \<in> edges G. u \<in> U \<and> v \<in> U}\<rparr>"

text \<open>
  Three graphs for the concrete cases: a triangle with all six edges whose node \<open>B\<close>
  also cites a node \<open>D\<close>; the two separate edges of the specification's own scenario;
  and the triangle beside a separate pair of nodes that cite each other.
\<close>

definition triangle_tail :: "string digraph" where
  "triangle_tail =
     \<lparr>nodes = {''A'', ''B'', ''C'', ''D''},
      edges = {(''A'', ''B''), (''A'', ''C''), (''B'', ''A''), (''B'', ''C''),
               (''C'', ''A''), (''C'', ''B''), (''B'', ''D'')}\<rparr>"

definition triangle_tail_scores :: "string \<Rightarrow> real" where
  "triangle_tail_scores v = (if v = ''D'' then 1 / sqrt 13 else 2 / sqrt 13)"

definition two_edges :: "string digraph" where
  "two_edges = \<lparr>nodes = {''X'', ''Y'', ''P'', ''Q''}, edges = {(''X'', ''Y''), (''P'', ''Q'')}\<rparr>"

definition split_scores :: "string \<Rightarrow> real" where
  "split_scores v = (if v = ''Y'' \<or> v = ''Q'' then 1 / sqrt 2 else 0)"

definition triangle_and_pair :: "string digraph" where
  "triangle_and_pair =
     \<lparr>nodes = {''A'', ''B'', ''C'', ''P'', ''Q''},
      edges = {(''A'', ''B''), (''A'', ''C''), (''B'', ''A''), (''B'', ''C''),
               (''C'', ''A''), (''C'', ''B''), (''P'', ''Q''), (''Q'', ''P'')}\<rparr>"

definition triangle_scores :: "string \<Rightarrow> real" where
  "triangle_scores v = (if v = ''P'' \<or> v = ''Q'' then 0 else 1 / sqrt 3)"

section \<open>Properties of the ranking\<close>

lemma mset_sorted_reverse: "mset (sorted_reverse key xs) = mset xs"
  by (simp add: sorted_reverse_def)

lemma length_sorted_reverse: "length (sorted_reverse key xs) = length xs"
  by (simp add: sorted_reverse_def)

lemma sorted_reverse_descending:
  "sorted_wrt (\<lambda>a b. key b \<le> key a) (sorted_reverse key xs)"
proof -
  have "sorted (map key (sort_key key (rev xs)))"
    by (rule sorted_sort_key)
  then have "sorted_wrt (\<lambda>a b. key a \<le> key b) (sort_key key (rev xs))"
    by (simp add: sorted_map)
  then show ?thesis
    by (simp add: sorted_reverse_def sorted_wrt_rev)
qed

lemma sorted_wrt_take_drop:
  assumes "sorted_wrt P xs" "x \<in> set (take k xs)" "y \<in> set (drop k xs)"
  shows "P x y"
proof -
  have "sorted_wrt P (take k xs @ drop k xs)"
    using assms(1) by simp
  then show ?thesis
    using assms(2,3) unfolding sorted_wrt_append by blast
qed

text \<open>
  C6. For every score table and every \<open>k \<ge> 0\<close>, the top-K slice has exactly
  \<open>min k (len scores)\<close> entries, all of them entries of the table, in descending order
  of score; the entries left out score no more than the entries kept; the slice for
  \<open>k = 0\<close> is empty; and when \<open>k\<close> is at least the table size every entry is returned.
  The function is total: no \<open>k\<close> raises.
\<close>

theorem top_k_descending_slice:
  "length (top_k scores k) = min k (length scores)
   \<and> sorted_wrt (\<lambda>a b. snd b \<le> snd a) (top_k scores k)
   \<and> (\<exists>rest. mset scores = mset (top_k scores k) + mset rest
        \<and> (\<forall>x \<in> set (top_k scores k). \<forall>y \<in> set rest. snd y \<le> snd x))
   \<and> top_k scores 0 = []
   \<and> (length scores \<le> k \<longrightarrow> mset (top_k scores k) = mset scores)"
proof -
  let ?s = "sorted_reverse snd scores"
  have len: "length (top_k scores k) = min k (length scores)"
    by (simp add: top_k_def length_sorted_reverse min.commute)
  have desc: "sorted_wrt (\<lambda>a b. snd b \<le> snd a) ?s"
    by (rule sorted_reverse_descending)
  then have srt: "sorted_wrt (\<lambda>a b. snd b \<le> snd a) (top_k scores k)"
    unfolding top_k_def by (rule sorted_wrt_take)
  have "mset (take k ?s) + mset (drop k ?s) = mset (take k ?s @ drop k ?s)"
    by (rule mset_append [symmetric])
  also have "\<dots> = mset scores"
    by (simp only: append_take_drop_id mset_sorted_reverse)
  finally have split: "mset scores = mset (top_k scores k) + mset (drop k ?s)"
    by (simp add: top_k_def)
  have largest: "\<forall>x \<in> set (top_k scores k). \<forall>y \<in> set (drop k ?s). snd y \<le> snd x"
    unfolding top_k_def using sorted_wrt_take_drop [OF desc] by blast
  have zero: "top_k scores 0 = []"
    by (simp add: top_k_def)
  have all: "length scores \<le> k \<longrightarrow> mset (top_k scores k) = mset scores"
    by (simp add: top_k_def length_sorted_reverse mset_sorted_reverse)
  from len srt split largest zero all show ?thesis
    by blast
qed

theorem top_k_descending_slice_witness:
  "top_k [(''A'', 2), (''B'', 1), (''C'', 1), (''D'', 0::int)] 2 = [(''A'', 2), (''B'', 1)]
   \<and> length [(''A'', 2), (''B'', 1), (''C'', 1), (''D'', 0::int)] \<le> 7
   \<and> mset (top_k [(''A'', 2), (''B'', 1), (''C'', 1), (''D'', 0::int)] 7)
       = mset [(''A'', 2), (''B'', 1), (''C'', 1), (''D'', 0::int)]"
proof -
  let ?t = "[(''A'', 2), (''B'', 1), (''C'', 1), (''D'', 0::int)]"
  have v: "top_k ?t 2 = [(''A'', 2), (''B'', 1)]"
    by (simp add: top_k_def sorted_reverse_def)
  have h: "length ?t \<le> 7"
    by simp
  from top_k_descending_slice [of ?t 7] h have "mset (top_k ?t 7) = mset ?t"
    by blast
  with v h show ?thesis
    by simp
qed

section \<open>Properties of the conversion\<close>

text \<open>A string that \<open>int\<close> accepts has no other characters than those of \<open>int_char\<close>.\<close>

lemma py_digits_chars:
  "py_digits acc s = Some n \<Longrightarrow> c \<in> set s \<Longrightarrow> py_isdigit c \<or> c = CHR ''_''"
  by (induction acc s rule: py_digits.induct) (auto split: if_splits)

lemma py_unsigned_chars:
  "py_unsigned s = Some n \<Longrightarrow> c \<in> set s \<Longrightarrow> py_isdigit c \<or> c = CHR ''_''"
  unfolding py_unsigned_def
  by (cases s) (auto split: if_splits dest: py_digits_chars)

lemma set_dropWhile_cases: "c \<in> set s \<Longrightarrow> c \<in> set (dropWhile P s) \<or> P c"
  by (induction s) auto

lemma py_strip_chars: "c \<in> set s \<Longrightarrow> c \<in> set (py_strip s) \<or> py_isspace c"
  unfolding py_strip_def
  using set_dropWhile_cases [of c s py_isspace]
    set_dropWhile_cases [of c "rev (dropWhile py_isspace s)" py_isspace]
  by auto

lemma py_int_chars:
  assumes "py_int s = Some n" and "c \<in> set s"
  shows "int_char c"
proof -
  from py_strip_chars [OF assms(2)] show ?thesis
  proof
    assume "py_isspace c"
    then show ?thesis by (simp add: int_char_def)
  next
    assume c: "c \<in> set (py_strip s)"
    then obtain d ds where s: "py_strip s = d # ds"
      by (cases "py_strip s") auto
    show ?thesis
    proof (cases "d = CHR ''-'' \<or> d = CHR ''+''")
      case True
      with assms(1) s obtain m where "py_unsigned ds = Some m"
        by (auto simp: py_int_def split: if_splits)
      with c s True show ?thesis
        by (auto simp: int_char_def dest: py_unsigned_chars)
    next
      case False
      with assms(1) s have "py_unsigned (d # ds) = Some n"
        by (simp add: py_int_def)
      with c s show ?thesis
        using py_unsigned_chars [of "d # ds" n c] by (auto simp: int_char_def)
    qed
  qed
qed

text \<open>
  A non-empty string of decimal digits, which is how the files write a patent number, is
  accepted, with its decimal value.
\<close>

lemma py_digits_decimal:
  "\<forall>c \<in> set s. py_isdigit c \<Longrightarrow>
     py_digits acc s = Some (foldl (\<lambda>a c. a * 10 + digit_value c) acc s)"
  by (induction acc s rule: py_digits.induct) auto

lemma digit_not_space: "py_isdigit c \<Longrightarrow> \<not> py_isspace c"
  by (auto simp: py_isdigit_def py_isspace_def Let_def)

lemma dropWhile_none: "\<forall>c \<in> set s. \<not> P c \<Longrightarrow> dropWhile P s = s"
  by (cases s) auto

lemma py_strip_digits: "\<forall>c \<in> set s. py_isdigit c \<Longrightarrow> py_strip s = s"
  by (simp add: py_strip_def dropWhile_none digit_not_space)

lemma digit_not_sign: "py_isdigit c \<Longrightarrow> c \<noteq> CHR ''-'' \<and> c \<noteq> CHR ''+''"
  by (auto simp: py_isdigit_def)

lemma py_int_decimal:
  assumes "s \<noteq> []" and "\<forall>c \<in> set s. py_isdigit c"
  shows "py_int s = Some (foldl (\<lambda>a c. a * 10 + digit_value c) 0 s)"
proof -
  from assms(1) obtain d ds where s: "s = d # ds"
    by (cases s) auto
  with assms(2) have d: "py_isdigit d"
    by simp
  have "py_strip (d # ds) = d # ds"
    using py_strip_digits [OF assms(2)] by (simp add: s)
  then have "py_int s = py_unsigned s"
    using digit_not_sign [OF d] by (simp add: py_int_def s)
  also have "\<dots> = py_digits 0 s"
    using d by (simp add: py_unsigned_def s)
  finally show ?thesis
    by (simp add: py_digits_decimal [OF assms(2)])
qed

lemma int_char_example: "\<not> int_char CHR ''A''"
  by code_simp

section \<open>Properties of \<open>lookup\<close>\<close>

subsection \<open>The steps of a call\<close>

lemma int_all_Inr: "(int_all ss = Inr ns) = (map py_int ss = map Some ns)"
proof (induction ss arbitrary: ns)
  case Nil
  show ?case by auto
next
  case (Cons s ss)
  show ?case
  proof (cases "py_int s")
    case None
    then show ?thesis by (auto simp: Cons_eq_map_conv)
  next
    case (Some n)
    show ?thesis
    proof (cases "int_all ss")
      case (Inl e)
      with Cons.IH have "\<And>ms. map py_int ss \<noteq> map Some ms" by (metis sum.distinct(1))
      with Some Inl show ?thesis by (auto simp: Cons_eq_map_conv)
    next
      case (Inr ms)
      with Cons.IH [of ms] have "map py_int ss = map Some ms" by simp
      with Some Inr show ?thesis by (auto simp: Cons_eq_map_conv inj_map_eq_map)
    qed
  qed
qed

lemma int_all_error: "int_all ss = Inl e \<Longrightarrow> e = ValueError"
  by (induction ss arbitrary: e) (auto split: option.splits sum.splits)

lemma int_all_raises: "(int_all ss = Inl ValueError) = (\<exists>s \<in> set ss. py_int s = None)"
  by (induction ss) (auto split: option.splits sum.splits dest: int_all_error)

lemma int_all_values:
  assumes "int_all ss = Inr ns"
  shows "(n \<in> set ns) = (\<exists>s \<in> set ss. py_int s = Some n)"
proof -
  from assms have "map py_int ss = map Some ns"
    by (simp add: int_all_Inr)
  then have "py_int ` set ss = Some ` set ns"
    by (metis set_map)
  then show ?thesis
    by (auto simp: image_iff) (metis imageI image_iff option.inject)+
qed

lemma getitem_mask_map: "getitem_mask t (map (\<lambda>r. P (f r)) t) = filter (\<lambda>r. P (f r)) t"
  by (induction t) (simp_all add: getitem_mask_def)




lemma isin_int64:
  assumes "\<forall>v \<in> set ns. int64 v"
  shows "isin column ns = map (\<lambda>x. x \<in> set ns) column"
proof (cases "ns = []")
  case True
  then show ?thesis
    by (simp add: isin_def asarray_dtype_def)
next
  case False
  with assms have "asarray_dtype ns = Int64"
    by (simp add: asarray_dtype_def)
  then show ?thesis
    by (simp add: isin_def)
qed

lemma selected_int64:
  assumes "\<forall>v \<in> set ns. int64 v"
  shows "selected t ns = filter (\<lambda>r. PATENT r \<in> set ns) t"
  by (simp add: isin_int64 [OF assms] map_map comp_def getitem_mask_map [of t "\<lambda>x. x \<in> set ns" PATENT])

lemma lookup_unbound:
  "length (heap w) \<le> pat_data w \<Longrightarrow> lookup w ids = (Inl NameError, w)"
  by (simp add: lookup_def)

lemma lookup_raises:
  "pat_data w < length (heap w) \<Longrightarrow> int_all ids = Inl e \<Longrightarrow> lookup w ids = (Inl e, w)"
  by (simp add: lookup_def)

lemma lookup_returns:
  assumes "pat_data w < length (heap w)" and "int_all ids = Inr ns"
  shows "lookup w ids =
           (Inr (length (heap w) + 2),
            w\<lparr>heap := heap w
               @ [selected (heap w ! pat_data w) ns,
                  getitem_cols (selected (heap w ! pat_data w) ns),
                  getitem_cols (selected (heap w ! pat_data w) ns)]\<rparr>)"
  using assms
  by (simp add: lookup_def alloc_def copy_def nth_append Let_def)


lemma int_all_total:
  "\<forall>s \<in> set ids. py_int s \<noteq> None \<Longrightarrow> \<exists>ns. int_all ids = Inr ns"
  by (metis int_all_raises int_all_error sum.exhaust)
  
lemma returned_lookup:
  assumes "pat_data w < length (heap w)" and "int_all ids = Inr ns"
  shows "returned (lookup w ids)
           = Inr (getitem_cols (selected (heap w ! pat_data w) ns))"
  by (simp add: lookup_returns [OF assms] returned_def nth_append)

lemma py_int_example_1: "py_int ''4367924'' = Some 4367924"
  by code_simp

lemma py_int_example_2: "py_int ''77'' = Some 77"
  by code_simp

lemma py_int_example_3: "py_int ''A'' = None"
  by code_simp

lemma py_int_example_4: "py_int ''3953566'' = Some 3953566"
  by code_simp

subsection \<open>The rows returned\<close>

lemma py_int_example_5: "py_int ''9223372036854775808'' = Some 9223372036854775808"
  by code_simp

lemma float64_example_1: "float64 9223372036854775807 = 9223372036854775808"
  by code_simp

lemma float64_example_2: "float64 9223372036854775808 = 9223372036854775808"
  by code_simp

lemma float64_example_3: "float64 4367924 = 4367924"
  by code_simp

text \<open>
  C7, as stated for every sequence of ids, fails in two ways. An id that \<open>int\<close> does not
  accept makes the call raise, also when it is only an id without a row: here the second
  id is \<open>A\<close>, the kind of id the specification's own scenarios use. And an id from
  \<open>2^63\<close> on makes the test a comparison of floats, which returns rows that no id
  equals: here the row of patent \<open>2^63 - 1\<close> for the id \<open>2^63\<close>.
\<close>

theorem lookup_matching_rows_counterexample:
  "returned (lookup example_world [''4367924'', ''A'']) = Inl ValueError
   \<and> returned (lookup wide_world [''9223372036854775808'', ''4367924''])
       = Inr [\<lparr>label = 0, PATENT = 9223372036854775807, GYEAR = 1999,
                COMPNAME = None, others = []\<rparr>,
              \<lparr>label = 1, PATENT = 4367924, GYEAR = 1983, COMPNAME = None, others = []\<rparr>]"
proof -
  have "returned (lookup example_world [''4367924'', ''A'']) = Inl ValueError"
    by (simp add: returned_def lookup_def example_world_def py_int_example_1 py_int_example_3)
  moreover have "asarray_dtype [9223372036854775808, 4367924] = UInt64"
    by (simp add: asarray_dtype_def int64_def)
  then have "isin [9223372036854775807, 4367924] [9223372036854775808, 4367924] = [True, True]"
    by (simp add: isin_def float64_example_1 float64_example_2 float64_example_3)
  then have "returned (lookup wide_world [''9223372036854775808'', ''4367924''])
       = Inr [\<lparr>label = 0, PATENT = 9223372036854775807, GYEAR = 1999,
                COMPNAME = None, others = []\<rparr>,
              \<lparr>label = 1, PATENT = 4367924, GYEAR = 1983, COMPNAME = None, others = []\<rparr>]"
    by (simp add: returned_def lookup_def alloc_def getitem_mask_def getitem_cols_def copy_def
        Let_def wide_world_def wide_table_def py_int_example_1 py_int_example_5)
  ultimately show ?thesis
    by simp
qed

text \<open>
  C7, amended. When the table is loaded and every id of the sequence parses as an integer
  of the \<open>int64\<close> range, \<open>lookup\<close> returns exactly the rows of the attribute table whose
  \<open>PATENT\<close> is \<open>int(id)\<close> for some id of the sequence, each with its index label and the
  columns \<open>PATENT\<close>, \<open>GYEAR\<close> and \<open>COMPNAME\<close> only, in the order of the table's rows,
  whatever the order of the ids. An id that parses and has no row raises nothing and adds
  nothing, so the result can have fewer rows than there are ids.
\<close>

theorem lookup_matching_rows:
  assumes "pat_data w < length (heap w)"
    and "\<forall>s \<in> set ids. \<exists>n. py_int s = Some n \<and> int64 n"
  shows "returned (lookup w ids)
           = Inr (map (\<lambda>r. r\<lparr>others := []\<rparr>)
                   (filter (\<lambda>r. \<exists>s \<in> set ids. py_int s = Some (PATENT r)) (heap w ! pat_data w)))"
proof -
  from assms(2) have "\<forall>s \<in> set ids. py_int s \<noteq> None"
    by auto
  then obtain ns where ns: "int_all ids = Inr ns"
    using int_all_total by blast
  have "\<forall>v \<in> set ns. int64 v"
    using int_all_values [OF ns] assms(2) by fastforce
  then have sel: "selected t ns = filter (\<lambda>r. PATENT r \<in> set ns) t" for t
    by (rule selected_int64)
  have flt: "filter (\<lambda>r. PATENT r \<in> set ns) t
               = filter (\<lambda>r. \<exists>s \<in> set ids. py_int s = Some (PATENT r)) t" for t
    by (simp add: int_all_values [OF ns])
  show ?thesis
    unfolding returned_lookup [OF assms(1) ns] sel flt getitem_cols_def ..
qed

theorem lookup_matching_rows_witness:
  "pat_data example_world < length (heap example_world)
   \<and> py_int ''4367924'' = Some 4367924 \<and> int64 4367924
   \<and> py_int ''77'' = Some 77 \<and> int64 77
   \<and> py_int ''3953566'' = Some 3953566 \<and> int64 3953566
   \<and> returned (lookup example_world [''4367924'', ''77'', ''3953566''])
       = Inr [\<lparr>label = 879900, PATENT = 3953566, GYEAR = 1976,
                COMPNAME = Some ''W. L. GORE & ASSSOCIATES, INC.'', others = []\<rparr>,
              \<lparr>label = 1293878, PATENT = 4367924, GYEAR = 1983,
                COMPNAME = None, others = []\<rparr>]"
proof -
  have h1: "pat_data example_world < length (heap example_world)"
    by (simp add: example_world_def)
  have h2: "\<forall>s \<in> set [''4367924'', ''77'', ''3953566'']. \<exists>n. py_int s = Some n \<and> int64 n"
    by (simp add: py_int_example_1 py_int_example_2 py_int_example_4 int64_def)
  show ?thesis
    using h1 lookup_matching_rows [OF h1 h2]
    by (simp add: example_world_def example_table_def int64_def
        py_int_example_1 py_int_example_2 py_int_example_4)
qed

subsection \<open>Ids that are not integers\<close>

text \<open>
  C8. A sequence with an id that \<open>int\<close> does not accept makes \<open>lookup\<close> fail, and the
  world is as before the call; so does, in particular, an id with a character that is not
  a digit, an underscore, a sign or whitespace. With the table loaded the failure is the \<open>ValueError\<close> of
  the conversion, it occurs exactly when some id does not parse, and a frame is returned
  exactly when every id parses.
\<close>

theorem lookup_fails_on_unparsable_id:
  "((\<exists>s \<in> set ids. py_int s = None) \<longrightarrow> (\<exists>e. lookup w ids = (Inl e, w)))
   \<and> ((\<exists>s \<in> set ids. \<exists>c \<in> set s. \<not> int_char c) \<longrightarrow> (\<exists>e. lookup w ids = (Inl e, w)))
   \<and> (pat_data w < length (heap w) \<longrightarrow>
        (lookup w ids = (Inl ValueError, w)) = (\<exists>s \<in> set ids. py_int s = None)
        \<and> (\<exists>a w'. lookup w ids = (Inr a, w')) = (\<forall>s \<in> set ids. py_int s \<noteq> None))"
proof -
  have fails: "\<exists>e. lookup w ids = (Inl e, w)" if "\<exists>s \<in> set ids. py_int s = None"
  proof (cases "pat_data w < length (heap w)")
    case True
    from that have "int_all ids = Inl ValueError"
      by (simp add: int_all_raises)
    with True show ?thesis
      by (simp add: lookup_raises)
  next
    case False
    then show ?thesis
      by (simp add: lookup_unbound)
  qed
  have bound: "(lookup w ids = (Inl ValueError, w)) = (\<exists>s \<in> set ids. py_int s = None)
      \<and> (\<exists>a w'. lookup w ids = (Inr a, w')) = (\<forall>s \<in> set ids. py_int s \<noteq> None)"
    if b: "pat_data w < length (heap w)"
  proof (cases "int_all ids")
    case (Inl e)
    then have e: "int_all ids = Inl ValueError"
      by (simp add: int_all_error)
    then have "\<exists>s \<in> set ids. py_int s = None"
      by (simp add: int_all_raises)
    with lookup_raises [OF b e] show ?thesis
      by auto
  next
    case (Inr ns)
    then have "\<not> (\<exists>s \<in> set ids. py_int s = None)"
      using int_all_raises [of ids] by simp
    with lookup_returns [OF b Inr] show ?thesis
      by auto
  qed
  have chars: "\<exists>s \<in> set ids. py_int s = None" if "\<exists>s \<in> set ids. \<exists>c \<in> set s. \<not> int_char c"
  proof -
    from that obtain s c where "s \<in> set ids" "c \<in> set s" "\<not> int_char c"
      by blast
    then show ?thesis
      using py_int_chars [of s _ c] by (cases "py_int s") auto
  qed
  from fails chars bound show ?thesis
    by blast
qed

theorem lookup_fails_on_unparsable_id_witness:
  "(\<exists>s \<in> set [''4367924'', ''A'']. py_int s = None)
   \<and> (\<exists>s \<in> set [''4367924'', ''A'']. \<exists>c \<in> set s. \<not> int_char c)
   \<and> pat_data example_world < length (heap example_world)
   \<and> lookup example_world [''4367924'', ''A''] = (Inl ValueError, example_world)
   \<and> py_int ''4367924'' \<noteq> None \<and> py_int ''77'' \<noteq> None
   \<and> (\<exists>a w'. lookup example_world [''4367924'', ''77''] = (Inr a, w'))"
proof -
  have h1: "\<exists>s \<in> set [''4367924'', ''A'']. py_int s = None"
    by (simp add: py_int_example_3)
  have h2: "pat_data example_world < length (heap example_world)"
    by (simp add: example_world_def)
  have h3: "\<forall>s \<in> set [''4367924'', ''77'']. py_int s \<noteq> None"
    by (simp add: py_int_example_1 py_int_example_2)
  from lookup_fails_on_unparsable_id [of "[''4367924'', ''A'']" example_world] h1 h2
  have c1: "lookup example_world [''4367924'', ''A''] = (Inl ValueError, example_world)"
    by blast
  from lookup_fails_on_unparsable_id [of "[''4367924'', ''77'']" example_world] h2 h3
  have c2: "\<exists>a w'. lookup example_world [''4367924'', ''77''] = (Inr a, w')"
    by blast
  from h1 h2 c1 c2 show ?thesis
    by (simp add: py_int_example_1 py_int_example_2 int_char_example)
qed

subsection \<open>The table after a call\<close>

lemma lookup_cases:
  obtains (unbound) "length (heap w) \<le> pat_data w" "lookup w ids = (Inl NameError, w)"
  | (raises) "pat_data w < length (heap w)" "lookup w ids = (Inl ValueError, w)"
  | (returns) ns where "pat_data w < length (heap w)" "int_all ids = Inr ns"
      "lookup w ids =
         (Inr (length (heap w) + 2),
          w\<lparr>heap := heap w
             @ [selected (heap w ! pat_data w) ns,
                getitem_cols (selected (heap w ! pat_data w) ns),
                getitem_cols (selected (heap w ! pat_data w) ns)]\<rparr>)"
proof (cases "pat_data w < length (heap w)")
  case False
  then show ?thesis
    using unbound lookup_unbound [of w ids] by simp
next
  case True
  show ?thesis
  proof (cases "int_all ids")
    case (Inl e)
    then have "int_all ids = Inl ValueError"
      by (simp add: int_all_error)
    then show ?thesis
      using raises True lookup_raises by blast
  next
    case (Inr ns)
    then show ?thesis
      using returns True lookup_returns by blast
  qed
qed

lemma returned_lookup_extended:
  assumes "pat_data w < length (heap w)"
  shows "returned (lookup (w\<lparr>heap := heap w @ fs\<rparr>) ids) = returned (lookup w ids)"
proof -
  let ?w = "w\<lparr>heap := heap w @ fs\<rparr>"
  have b: "pat_data ?w < length (heap ?w)"
    using assms by simp
  have t: "heap ?w ! pat_data ?w = heap w ! pat_data w"
    using assms by (simp add: nth_append)
  show ?thesis
  proof (cases "int_all ids")
    case (Inl e)
    then show ?thesis
      using lookup_raises [OF assms Inl] lookup_raises [OF b Inl] by (simp add: returned_def)
  next
    case (Inr ns)
    then show ?thesis
      using returned_lookup [OF assms Inr] returned_lookup [OF b Inr] t by simp
  qed
qed

text \<open>
  C9. A call to \<open>lookup\<close> leaves the attribute table as it was: the name \<open>pat_data\<close>
  holds the same address, every object that was on the heap before the call is unchanged,
  and the frame returned is a new object, at an address that was not in use before and is
  not the table's, so that overwriting the returned frame leaves the table as it was.
  A later call reads the same table: it returns what it would have returned before.
\<close>

theorem lookup_leaves_table:
  assumes "lookup w ids = (r, w')"
  shows "pat_data w' = pat_data w
         \<and> take (length (heap w)) (heap w') = heap w
         \<and> (\<forall>a. r = Inr a \<longrightarrow>
               length (heap w) \<le> a \<and> a < length (heap w') \<and> a \<noteq> pat_data w
               \<and> (\<forall>f. (heap w')[a := f] ! pat_data w = heap w ! pat_data w))
         \<and> (\<forall>ids'. returned (lookup w' ids') = returned (lookup w ids'))"
proof (cases rule: lookup_cases [of w ids])
  case unbound
  with assms show ?thesis by auto
next
  case raises
  with assms show ?thesis by auto
next
  case (returns ns)
  let ?fs = "[selected (heap w ! pat_data w) ns,
              getitem_cols (selected (heap w ! pat_data w) ns),
              getitem_cols (selected (heap w ! pat_data w) ns)]"
  from assms returns(3) have r: "r = Inr (length (heap w) + 2)"
    and w': "w' = w\<lparr>heap := heap w @ ?fs\<rparr>"
    by simp_all
  have 1: "pat_data w' = pat_data w"
    by (simp add: w')
  have 2: "take (length (heap w)) (heap w') = heap w"
    by (simp add: w')
  have 3: "\<forall>a. r = Inr a \<longrightarrow>
               length (heap w) \<le> a \<and> a < length (heap w') \<and> a \<noteq> pat_data w
               \<and> (\<forall>f. (heap w')[a := f] ! pat_data w = heap w ! pat_data w)"
    using returns(1) by (simp add: r w' nth_append)
  have 4: "\<forall>ids'. returned (lookup w' ids') = returned (lookup w ids')"
    unfolding w' using returned_lookup_extended [OF returns(1)] by blast
  from 1 2 3 4 show ?thesis
    by blast
qed

theorem lookup_leaves_table_witness:
  "lookup example_world [''4367924'', ''77'']
     = (Inr 3, example_world\<lparr>heap :=
          [example_table,
           [\<lparr>label = 1293878, PATENT = 4367924, GYEAR = 1983, COMPNAME = None,
              others = [(''ASSIGNEE'', ''nan'')]\<rparr>],
           [\<lparr>label = 1293878, PATENT = 4367924, GYEAR = 1983, COMPNAME = None, others = []\<rparr>],
           [\<lparr>label = 1293878, PATENT = 4367924, GYEAR = 1983, COMPNAME = None, others = []\<rparr>]]\<rparr>)
   \<and> heap (snd (lookup example_world [''4367924'', ''77'']))
        ! pat_data (snd (lookup example_world [''4367924'', ''77'']))
       = example_table
   \<and> (heap (snd (lookup example_world [''4367924'', ''77''])))[3 := []]
        ! pat_data example_world
       = example_table"
proof -
  let ?r = "lookup example_world [''4367924'', ''77'']"
  have v: "?r = (Inr 3, example_world\<lparr>heap :=
          [example_table,
           [\<lparr>label = 1293878, PATENT = 4367924, GYEAR = 1983, COMPNAME = None,
              others = [(''ASSIGNEE'', ''nan'')]\<rparr>],
           [\<lparr>label = 1293878, PATENT = 4367924, GYEAR = 1983, COMPNAME = None, others = []\<rparr>],
           [\<lparr>label = 1293878, PATENT = 4367924, GYEAR = 1983, COMPNAME = None, others = []\<rparr>]]\<rparr>)"
    by (simp add: lookup_def alloc_def isin_int64 int64_def getitem_mask_def getitem_cols_def copy_def
        example_world_def example_table_def py_int_example_1 py_int_example_2)
  from lookup_leaves_table [OF v]
  have "(heap (snd ?r))[3 := []] ! pat_data example_world = heap example_world ! pat_data example_world"
    and "pat_data (snd ?r) = pat_data example_world"
    and "take (length (heap example_world)) (heap (snd ?r)) = heap example_world"
    unfolding v by simp_all
  with v show ?thesis
    by (simp add: example_world_def)
qed

subsection \<open>Order and repetition of the ids\<close>




section \<open>Properties of eigenvector centrality\<close>

lemma dominant_eigenvalue_unique:
  "dominant_eigenvalue G l \<Longrightarrow> dominant_eigenvalue G m \<Longrightarrow> l = m"
  unfolding dominant_eigenvalue_def by (metis abs_le_D1 order_antisym)

lemma eigenvector_induced:
  assumes ev: "eigenvector G l x"
    and sub: "U \<subseteq> nodes G"
    and closed: "\<forall>(u, v) \<in> edges G. v \<in> U \<longrightarrow> u \<in> U"
    and nz: "\<exists>v \<in> U. x v \<noteq> 0"
  shows "eigenvector (induced G U) l x"
proof -
  have "in_sum (induced G U) x v = in_sum G x v" if "v \<in> U" for v
  proof -
    have "{u \<in> nodes (induced G U). (u, v) \<in> edges (induced G U)}
            = {u \<in> nodes G. (u, v) \<in> edges G}"
      using that sub closed by (auto simp: induced_def)
    then show ?thesis
      by (simp add: in_sum_def)
  qed
  moreover have "in_sum G x v = l * x v" if "v \<in> U" for v
    using ev sub that by (auto simp: eigenvector_def)
  ultimately have "\<forall>v \<in> nodes (induced G U). in_sum (induced G U) x v = l * x v"
    by (simp add: induced_def)
  moreover have "\<exists>v \<in> nodes (induced G U). x v \<noteq> 0"
    using nz sub by (auto simp: induced_def)
  ultimately show ?thesis
    by (simp add: eigenvector_def)
qed


subsection \<open>The triangle with a tail\<close>

lemma triangle_tail_in_sum:
  "in_sum triangle_tail y ''A'' = y ''B'' + y ''C''"
  "in_sum triangle_tail y ''B'' = y ''A'' + y ''C''"
  "in_sum triangle_tail y ''C'' = y ''A'' + y ''B''"
  "in_sum triangle_tail y ''D'' = y ''B''"
proof -
  have "{u \<in> nodes triangle_tail. (u, ''A'') \<in> edges triangle_tail} = {''B'', ''C''}"
    "{u \<in> nodes triangle_tail. (u, ''B'') \<in> edges triangle_tail} = {''A'', ''C''}"
    "{u \<in> nodes triangle_tail. (u, ''C'') \<in> edges triangle_tail} = {''A'', ''B''}"
    "{u \<in> nodes triangle_tail. (u, ''D'') \<in> edges triangle_tail} = {''B''}"
    by (auto simp: triangle_tail_def)
  then show "in_sum triangle_tail y ''A'' = y ''B'' + y ''C''"
    "in_sum triangle_tail y ''B'' = y ''A'' + y ''C''"
    "in_sum triangle_tail y ''C'' = y ''A'' + y ''B''"
    "in_sum triangle_tail y ''D'' = y ''B''"
    by (simp_all add: in_sum_def)
qed

lemma triangle_tail_eigenvector:
  "eigenvector triangle_tail m y =
     ((y ''A'' \<noteq> 0 \<or> y ''B'' \<noteq> 0 \<or> y ''C'' \<noteq> 0 \<or> y ''D'' \<noteq> 0)
      \<and> y ''B'' + y ''C'' = m * y ''A'' \<and> y ''A'' + y ''C'' = m * y ''B''
      \<and> y ''A'' + y ''B'' = m * y ''C'' \<and> y ''B'' = m * y ''D'')"
proof -
  have n: "nodes triangle_tail = {''A'', ''B'', ''C'', ''D''}"
    by (simp add: triangle_tail_def)
  show ?thesis
    unfolding eigenvector_def n by (auto simp: triangle_tail_in_sum)
qed

lemma triangle_tail_solutions:
  fixes a b c d m :: real
  assumes "b + c = m * a" "a + c = m * b" "a + b = m * c" "b = m * d"
    and "a \<noteq> 0 \<or> b \<noteq> 0 \<or> c \<noteq> 0 \<or> d \<noteq> 0"
  shows "m = 2 \<and> a = 2 * d \<and> b = 2 * d \<and> c = 2 * d \<and> d \<noteq> 0 \<or> m = -1 \<or> m = 0"
proof (cases "m = -1")
  case True
  then show ?thesis by simp
next
  case False
  have "(m + 1) * (a - b) = 0" "(m + 1) * (b - c) = 0"
    using assms(1-3) by (simp_all add: algebra_simps)
  with False have ab: "a = b" and bc: "b = c"
    by simp_all
  with assms(1) have "(m - 2) * a = 0"
    by (simp add: algebra_simps)
  then show ?thesis
  proof (cases "m = 2")
    case True
    with assms ab bc show ?thesis by auto
  next
    case False
    with \<open>(m - 2) * a = 0\<close> have "a = 0" by simp
    with ab bc assms(4,5) show ?thesis by auto
  qed
qed

lemma triangle_tail_dominant: "dominant_eigenvalue triangle_tail 2"
proof -
  have "eigenvector triangle_tail 2 (\<lambda>v. if v = ''D'' then 1 else 2)"
    by (simp add: triangle_tail_eigenvector)
  then have "eigenvalue triangle_tail 2"
    unfolding eigenvalue_def by blast
  moreover have "\<bar>m\<bar> \<le> 2" if "eigenvalue triangle_tail m" for m
  proof -
    from that obtain y where "eigenvector triangle_tail m y"
      unfolding eigenvalue_def by blast
    then have "m = 2 \<or> m = -1 \<or> m = 0"
      unfolding triangle_tail_eigenvector
      using triangle_tail_solutions [of "y ''B''" "y ''C''" m "y ''A''" "y ''D''"] by blast
    then show ?thesis by auto
  qed
  ultimately show ?thesis
    by (simp add: dominant_eigenvalue_def)
qed

lemma sqrt_13_facts: "(1 / sqrt 13)\<^sup>2 = 1 / 13" "(2 / sqrt 13)\<^sup>2 = 4 / 13" "1 / 4 < 1 / sqrt 13"
proof -
  show "(1 / sqrt 13)\<^sup>2 = 1 / 13" "(2 / sqrt 13)\<^sup>2 = 4 / 13"
    by (simp_all add: power_divide)
  have "sqrt 13 < 4"
    by (rule real_less_lsqrt) simp_all
  then show "1 / 4 < 1 / sqrt 13"
    by (simp add: field_simps)
qed

lemma triangle_tail_centrality: "eigenvector_centrality triangle_tail triangle_tail_scores"
proof -
  have "eigenvector triangle_tail 2 triangle_tail_scores"
    by (simp add: triangle_tail_eigenvector triangle_tail_scores_def)
  moreover have "\<forall>v \<in> nodes triangle_tail. 0 \<le> triangle_tail_scores v"
    by (simp add: triangle_tail_scores_def)
  moreover have "(\<Sum>v \<in> nodes triangle_tail. (triangle_tail_scores v)\<^sup>2) = 1"
    by (simp add: triangle_tail_def triangle_tail_scores_def sqrt_13_facts)
  ultimately show ?thesis
    using triangle_tail_dominant unfolding eigenvector_centrality_def by blast
qed

lemma triangle_tail_cycle:
  "(''A'', ''B'') \<in> edges triangle_tail" "(''B'', ''C'') \<in> edges triangle_tail"
  "(''C'', ''A'') \<in> edges triangle_tail" "(''B'', ''D'') \<in> edges triangle_tail"
  by (simp_all add: triangle_tail_def)

lemma triangle_tail_sink: "(''D'', ''A'') \<notin> (edges triangle_tail)\<^sup>*"
proof
  assume "(''D'', ''A'') \<in> (edges triangle_tail)\<^sup>*"
  then show False
    by (cases rule: converse_rtranclE) (auto simp: triangle_tail_def)
qed

lemma triangle_tail_scores_unique:
  assumes "eigenvector_centrality triangle_tail x"
  shows "x ''D'' = 1 / sqrt 13"
proof -
  from assms obtain l where l: "dominant_eigenvalue triangle_tail l"
    "eigenvector triangle_tail l x" "\<forall>v \<in> nodes triangle_tail. 0 \<le> x v"
    "(\<Sum>v \<in> nodes triangle_tail. (x v)\<^sup>2) = 1"
    unfolding eigenvector_centrality_def by blast
  from dominant_eigenvalue_unique [OF l(1) triangle_tail_dominant] have "l = 2" .
  with l(2) have ev: "eigenvector triangle_tail 2 x"
    by simp
  then have e: "x ''B'' + x ''C'' = 2 * x ''A''" "x ''A'' + x ''C'' = 2 * x ''B''"
    "x ''A'' + x ''B'' = 2 * x ''C''" "x ''B'' = 2 * x ''D''"
    "x ''A'' \<noteq> 0 \<or> x ''B'' \<noteq> 0 \<or> x ''C'' \<noteq> 0 \<or> x ''D'' \<noteq> 0"
    unfolding triangle_tail_eigenvector by simp_all
  from triangle_tail_solutions [OF e]
  have eq: "x ''A'' = 2 * x ''D''" "x ''B'' = 2 * x ''D''" "x ''C'' = 2 * x ''D''"
    by simp_all
  from l(3) have nn: "0 \<le> x ''D''"
    by (simp add: triangle_tail_def)
  from l(4) have "(x ''A'')\<^sup>2 + (x ''B'')\<^sup>2 + (x ''C'')\<^sup>2 + (x ''D'')\<^sup>2 = 1"
    by (simp add: triangle_tail_def)
  then have "13 * (x ''D'')\<^sup>2 = 1"
    unfolding eq by (simp add: power_mult_distrib)
  then have "(x ''D'')\<^sup>2 = 1 / 13"
    by simp
  then have "sqrt (1 / 13) = x ''D''"
    using nn by (rule real_sqrt_unique)
  then show ?thesis
    by (simp add: real_sqrt_divide)
qed

subsection \<open>Two separate edges, and a triangle beside a pair\<close>

lemma two_edges_in_sum:
  "in_sum two_edges y ''X'' = 0"
  "in_sum two_edges y ''Y'' = y ''X''"
  "in_sum two_edges y ''P'' = 0"
  "in_sum two_edges y ''Q'' = y ''P''"
proof -
  have "{u \<in> nodes two_edges. (u, ''X'') \<in> edges two_edges} = {}"
    "{u \<in> nodes two_edges. (u, ''Y'') \<in> edges two_edges} = {''X''}"
    "{u \<in> nodes two_edges. (u, ''P'') \<in> edges two_edges} = {}"
    "{u \<in> nodes two_edges. (u, ''Q'') \<in> edges two_edges} = {''P''}"
    by (auto simp: two_edges_def)
  note p = this
  show "in_sum two_edges y ''X'' = 0"
    "in_sum two_edges y ''Y'' = y ''X''"
    "in_sum two_edges y ''P'' = 0"
    "in_sum two_edges y ''Q'' = y ''P''"
    unfolding in_sum_def p by simp_all
qed

lemma two_edges_eigenvector:
  "eigenvector two_edges m y =
     ((y ''X'' \<noteq> 0 \<or> y ''Y'' \<noteq> 0 \<or> y ''P'' \<noteq> 0 \<or> y ''Q'' \<noteq> 0)
      \<and> 0 = m * y ''X'' \<and> y ''X'' = m * y ''Y'' \<and> 0 = m * y ''P'' \<and> y ''P'' = m * y ''Q'')"
proof -
  have n: "nodes two_edges = {''X'', ''Y'', ''P'', ''Q''}"
    by (simp add: two_edges_def)
  show ?thesis
    unfolding eigenvector_def n by (auto simp: two_edges_in_sum)
qed

lemma two_edges_dominant: "dominant_eigenvalue two_edges 0"
proof -
  have "eigenvector two_edges 0 (\<lambda>v. if v = ''Y'' then 1 else 0)"
    by (simp add: two_edges_eigenvector)
  then have "eigenvalue two_edges 0"
    unfolding eigenvalue_def by blast
  moreover have "\<bar>m\<bar> \<le> 0" if "eigenvalue two_edges m" for m
  proof -
    from that obtain y where "eigenvector two_edges m y"
      unfolding eigenvalue_def by blast
    then have "m = 0"
      unfolding two_edges_eigenvector by auto
    then show ?thesis by simp
  qed
  ultimately show ?thesis
    by (simp add: dominant_eigenvalue_def)
qed

lemma two_edges_centrality: "eigenvector_centrality two_edges split_scores"
proof -
  have "eigenvector two_edges 0 split_scores"
    by (simp add: two_edges_eigenvector split_scores_def)
  moreover have "\<forall>v \<in> nodes two_edges. 0 \<le> split_scores v"
    by (simp add: split_scores_def)
  moreover have "(\<Sum>v \<in> nodes two_edges. (split_scores v)\<^sup>2) = 1"
    by (simp add: two_edges_def split_scores_def power_divide)
  ultimately show ?thesis
    using two_edges_dominant unfolding eigenvector_centrality_def by blast
qed

lemma triangle_and_pair_in_sum:
  "in_sum triangle_and_pair y ''A'' = y ''B'' + y ''C''"
  "in_sum triangle_and_pair y ''B'' = y ''A'' + y ''C''"
  "in_sum triangle_and_pair y ''C'' = y ''A'' + y ''B''"
  "in_sum triangle_and_pair y ''P'' = y ''Q''"
  "in_sum triangle_and_pair y ''Q'' = y ''P''"
proof -
  have "{u \<in> nodes triangle_and_pair. (u, ''A'') \<in> edges triangle_and_pair} = {''B'', ''C''}"
    "{u \<in> nodes triangle_and_pair. (u, ''B'') \<in> edges triangle_and_pair} = {''A'', ''C''}"
    "{u \<in> nodes triangle_and_pair. (u, ''C'') \<in> edges triangle_and_pair} = {''A'', ''B''}"
    "{u \<in> nodes triangle_and_pair. (u, ''P'') \<in> edges triangle_and_pair} = {''Q''}"
    "{u \<in> nodes triangle_and_pair. (u, ''Q'') \<in> edges triangle_and_pair} = {''P''}"
    by (auto simp: triangle_and_pair_def)
  note p = this
  show "in_sum triangle_and_pair y ''A'' = y ''B'' + y ''C''"
    "in_sum triangle_and_pair y ''B'' = y ''A'' + y ''C''"
    "in_sum triangle_and_pair y ''C'' = y ''A'' + y ''B''"
    "in_sum triangle_and_pair y ''P'' = y ''Q''"
    "in_sum triangle_and_pair y ''Q'' = y ''P''"
    unfolding in_sum_def p by simp_all
qed

lemma triangle_and_pair_eigenvector:
  "eigenvector triangle_and_pair m y =
     ((y ''A'' \<noteq> 0 \<or> y ''B'' \<noteq> 0 \<or> y ''C'' \<noteq> 0 \<or> y ''P'' \<noteq> 0 \<or> y ''Q'' \<noteq> 0)
      \<and> y ''B'' + y ''C'' = m * y ''A'' \<and> y ''A'' + y ''C'' = m * y ''B''
      \<and> y ''A'' + y ''B'' = m * y ''C'' \<and> y ''Q'' = m * y ''P'' \<and> y ''P'' = m * y ''Q'')"
proof -
  have n: "nodes triangle_and_pair = {''A'', ''B'', ''C'', ''P'', ''Q''}"
    by (simp add: triangle_and_pair_def)
  show ?thesis
    unfolding eigenvector_def n by (auto simp: triangle_and_pair_in_sum)
qed

lemma pair_solutions:
  fixes p q m :: real
  assumes "q = m * p" "p = m * q" "p \<noteq> 0 \<or> q \<noteq> 0"
  shows "m = 1 \<or> m = -1"
proof -
  from assms(1,2) have "p = m * m * p" "q = m * m * q"
    by simp_all
  then have "(m * m - 1) * p = 0" "(m * m - 1) * q = 0"
    by (simp_all add: algebra_simps)
  with assms(3) have "m * m - 1 = 0"
    by auto
  then have "(m - 1) * (m + 1) = 0"
    by (simp add: algebra_simps)
  then show ?thesis
    by auto
qed

lemma triangle_solutions:
  fixes a b c m :: real
  assumes "b + c = m * a" "a + c = m * b" "a + b = m * c" "a \<noteq> 0 \<or> b \<noteq> 0 \<or> c \<noteq> 0"
  shows "m = 2 \<or> m = -1"
proof (cases "m = -1")
  case True
  then show ?thesis by simp
next
  case False
  have "(m + 1) * (a - b) = 0" "(m + 1) * (b - c) = 0"
    using assms(1-3) by (simp_all add: algebra_simps)
  with False have ab: "a = b" and bc: "b = c"
    by simp_all
  with assms(1) have "(m - 2) * a = 0"
    by (simp add: algebra_simps)
  moreover from ab bc assms(4) have "a \<noteq> 0"
    by simp
  ultimately show ?thesis
    by simp
qed

lemma triangle_and_pair_dominant: "dominant_eigenvalue triangle_and_pair 2"
proof -
  have "eigenvector triangle_and_pair 2 (\<lambda>v. if v = ''P'' \<or> v = ''Q'' then 0 else 1)"
    by (simp add: triangle_and_pair_eigenvector)
  then have "eigenvalue triangle_and_pair 2"
    unfolding eigenvalue_def by blast
  moreover have "\<bar>m\<bar> \<le> 2" if "eigenvalue triangle_and_pair m" for m
  proof -
    from that obtain y where "eigenvector triangle_and_pair m y"
      unfolding eigenvalue_def by blast
    then have e: "y ''B'' + y ''C'' = m * y ''A''" "y ''A'' + y ''C'' = m * y ''B''"
      "y ''A'' + y ''B'' = m * y ''C''" "y ''Q'' = m * y ''P''" "y ''P'' = m * y ''Q''"
      "y ''A'' \<noteq> 0 \<or> y ''B'' \<noteq> 0 \<or> y ''C'' \<noteq> 0 \<or> y ''P'' \<noteq> 0 \<or> y ''Q'' \<noteq> 0"
      unfolding triangle_and_pair_eigenvector by blast+
    show ?thesis
    proof (cases "y ''P'' \<noteq> 0 \<or> y ''Q'' \<noteq> 0")
      case True
      from pair_solutions [OF e(4,5) True] show ?thesis by auto
    next
      case False
      with e(6) have nz: "y ''A'' \<noteq> 0 \<or> y ''B'' \<noteq> 0 \<or> y ''C'' \<noteq> 0"
        by blast
      from triangle_solutions [OF e(1,2,3) nz] show ?thesis by auto
    qed
  qed
  ultimately show ?thesis
    by (simp add: dominant_eigenvalue_def)
qed

lemma triangle_and_pair_centrality: "eigenvector_centrality triangle_and_pair triangle_scores"
proof -
  have "eigenvector triangle_and_pair 2 triangle_scores"
    by (simp add: triangle_and_pair_eigenvector triangle_scores_def)
  moreover have "\<forall>v \<in> nodes triangle_and_pair. 0 \<le> triangle_scores v"
    by (simp add: triangle_scores_def)
  moreover have "(\<Sum>v \<in> nodes triangle_and_pair. (triangle_scores v)\<^sup>2) = 1"
    by (simp add: triangle_and_pair_def triangle_scores_def power_divide)
  ultimately show ?thesis
    using triangle_and_pair_dominant unfolding eigenvector_centrality_def by blast
qed

lemma pair_not_dominant: "\<not> eigenvalue (induced triangle_and_pair {''P'', ''Q''}) 2"
proof
  assume "eigenvalue (induced triangle_and_pair {''P'', ''Q''}) 2"
  then obtain y where y: "eigenvector (induced triangle_and_pair {''P'', ''Q''}) 2 y"
    unfolding eigenvalue_def by blast
  have n: "nodes (induced triangle_and_pair {''P'', ''Q''}) = {''P'', ''Q''}"
    by (auto simp: induced_def triangle_and_pair_def)
  have "{u \<in> nodes (induced triangle_and_pair {''P'', ''Q''}).
           (u, ''P'') \<in> edges (induced triangle_and_pair {''P'', ''Q''})} = {''Q''}"
    "{u \<in> nodes (induced triangle_and_pair {''P'', ''Q''}).
           (u, ''Q'') \<in> edges (induced triangle_and_pair {''P'', ''Q''})} = {''P''}"
    by (auto simp: induced_def triangle_and_pair_def)
  then have s: "in_sum (induced triangle_and_pair {''P'', ''Q''}) y ''P'' = y ''Q''"
    "in_sum (induced triangle_and_pair {''P'', ''Q''}) y ''Q'' = y ''P''"
    by (simp_all add: in_sum_def)
  from y have "\<exists>v \<in> {''P'', ''Q''}. y v \<noteq> 0"
    and "\<forall>v \<in> {''P'', ''Q''}. in_sum (induced triangle_and_pair {''P'', ''Q''}) y v = 2 * y v"
    unfolding eigenvector_def n by blast+
  then have "y ''P'' \<noteq> 0 \<or> y ''Q'' \<noteq> 0"
    and "in_sum (induced triangle_and_pair {''P'', ''Q''}) y ''P'' = 2 * y ''P''"
    and "in_sum (induced triangle_and_pair {''P'', ''Q''}) y ''Q'' = 2 * y ''Q''"
    by blast+
  then have "y ''P'' \<noteq> 0 \<or> y ''Q'' \<noteq> 0" "y ''Q'' = 2 * y ''P''" "y ''P'' = 2 * y ''Q''"
    unfolding s by blast+
  from pair_solutions [OF this(2,3,1)] show False
    by simp
qed

subsection \<open>Scores outside the dominant component\<close>

text \<open>
  C3, as stated, fails in both halves. In the triangle with a tail the dominant eigenvalue
  is 2 and belongs to the strongly connected component \<open>{A, B, C}\<close>; the node \<open>D\<close>,
  which \<open>B\<close> cites, is outside it, since no path leads from \<open>D\<close> back to \<open>A\<close>, and scores
  \<open>1 / sqrt 13\<close>, above a quarter, in the only eigenvector centrality there is. In the
  graph of two separate edges the table that gives \<open>Y\<close> and \<open>Q\<close> the same score is an
  eigenvector centrality, split evenly between the two components.
\<close>

theorem eigenvector_centrality_counterexample:
  "eigenvector_centrality triangle_tail triangle_tail_scores
   \<and> dominant_eigenvalue triangle_tail 2
   \<and> (''A'', ''B'') \<in> edges triangle_tail \<and> (''B'', ''C'') \<in> edges triangle_tail
   \<and> (''C'', ''A'') \<in> edges triangle_tail \<and> (''B'', ''D'') \<in> edges triangle_tail
   \<and> (''D'', ''A'') \<notin> (edges triangle_tail)\<^sup>*
   \<and> triangle_tail_scores ''D'' = 1 / sqrt 13
   \<and> 1 / 4 < triangle_tail_scores ''D''
   \<and> eigenvector_centrality two_edges split_scores
   \<and> split_scores ''Y'' = 1 / sqrt 2
   \<and> split_scores ''Q'' = 1 / sqrt 2"
proof -
  have d: "triangle_tail_scores ''D'' = 1 / sqrt 13"
    by (simp add: triangle_tail_scores_def)
  have lt: "1 / 4 < triangle_tail_scores ''D''"
    unfolding d by (rule sqrt_13_facts(3))
  have s: "split_scores ''Y'' = 1 / sqrt 2" "split_scores ''Q'' = 1 / sqrt 2"
    by (simp_all add: split_scores_def)
  from triangle_tail_centrality triangle_tail_dominant triangle_tail_cycle
    triangle_tail_sink d lt two_edges_centrality s
  show ?thesis
    by blast
qed

text \<open>
  C3, amended. For every directed graph, every eigenvector centrality \<open>x\<close> of it and
  every set \<open>U\<close> of its nodes that no edge enters from outside and whose subgraph does
  not have the graph's dominant eigenvalue as an eigenvalue, every node of \<open>U\<close> scores
  exactly zero. This is the case of a component other than the one that carries the
  dominant eigenvalue, when the graph consists of separate components.
\<close>

theorem eigenvector_centrality_zero_part:
  assumes "eigenvector_centrality G x" and "dominant_eigenvalue G l"
    and "U \<subseteq> nodes G"
    and "\<forall>(u, v) \<in> edges G. v \<in> U \<longrightarrow> u \<in> U"
    and "\<not> eigenvalue (induced G U) l"
  shows "\<forall>v \<in> U. x v = 0"
proof (rule ccontr)
  assume "\<not> (\<forall>v \<in> U. x v = 0)"
  then have nz: "\<exists>v \<in> U. x v \<noteq> 0"
    by simp
  from assms(1) obtain m where m: "dominant_eigenvalue G m" "eigenvector G m x"
    by (auto simp: eigenvector_centrality_def)
  from dominant_eigenvalue_unique [OF m(1) assms(2)] m(2) have "eigenvector G l x"
    by simp
  from eigenvector_induced [OF this assms(3,4) nz] have "eigenvalue (induced G U) l"
    by (auto simp: eigenvalue_def)
  with assms(5) show False
    by simp
qed

theorem eigenvector_centrality_zero_part_witness:
  "eigenvector_centrality triangle_and_pair triangle_scores
   \<and> dominant_eigenvalue triangle_and_pair 2
   \<and> {''P'', ''Q''} \<subseteq> nodes triangle_and_pair
   \<and> {u. \<exists>v \<in> {''P'', ''Q''}. (u, v) \<in> edges triangle_and_pair} \<subseteq> {''P'', ''Q''}
   \<and> \<not> eigenvalue (induced triangle_and_pair {''P'', ''Q''}) 2
   \<and> triangle_scores ''P'' = 0
   \<and> triangle_scores ''Q'' = 0"
proof -
  have sub: "{''P'', ''Q''} \<subseteq> nodes triangle_and_pair"
    by (simp add: triangle_and_pair_def)
  have pre: "{u. \<exists>v \<in> {''P'', ''Q''}. (u, v) \<in> edges triangle_and_pair} \<subseteq> {''P'', ''Q''}"
    by (auto simp: triangle_and_pair_def)
  then have closed: "\<forall>(u, v) \<in> edges triangle_and_pair. v \<in> {''P'', ''Q''} \<longrightarrow> u \<in> {''P'', ''Q''}"
    by blast
  from eigenvector_centrality_zero_part [OF triangle_and_pair_centrality
      triangle_and_pair_dominant sub closed pair_not_dominant]
  have "triangle_scores ''P'' = 0" "triangle_scores ''Q'' = 0"
    by simp_all
  with triangle_and_pair_centrality triangle_and_pair_dominant sub pre pair_not_dominant
  show ?thesis
    by blast
qed

end
